theory Spec2Isabelle
  imports Complex_Main
begin

section \<open>The amortization engine of \<open>main.py\<close>\<close>

text \<open>
  The embedding follows \<open>calculate_loan\<close> of \<open>src/main.py\<close> line by line. Python's
  \<open>float\<close> is modelled by the exact reals: every statement below is about the algorithm
  in exact arithmetic, and says nothing about binary rounding residue, overflow or NaN.
  In particular the annuity formula of line 66 is exact here, while in binary floating
  point \<open>(1 + r) ** n - 1\<close> equals \<open>(1 + r) ** n\<close> once the power exceeds \<open>2 ^ 53\<close>, and
  the payment then no longer amortizes the loan. The properties stated of every input
  use only the control flow, the order of the numbers and the half-cent error of
  rounding; the ones that need exact arithmetic say so.
  Python's \<open>int\<close> is \<open>int\<close>. An \<open>HTTPException\<close> is a value of the type \<open>error\<close>; the
  400 raised by the validation is \<open>InvalidInput\<close>, the 400 raised inside the loop is
  \<open>NonAmortizingPayment\<close>, and a division by zero in the annuity formula would be
  \<open>ZeroDivisionError\<close>.
\<close>

subsection \<open>Data model\<close>

datatype error = InvalidInput | NonAmortizingPayment | ZeroDivisionError

record LoanInput =
  principal :: real
  annual_rate :: real
  term_months :: int
  extra_payment :: real

text \<open>
  The fields of \<open>ScheduleItem\<close> are \<open>month\<close>, \<open>payment\<close>, \<open>interest\<close>, \<open>principal\<close> and
  \<open>balance\<close> in the source; \<open>principal\<close> is written \<open>principal_paid\<close> here, since the
  input record already has a field of that name.
\<close>

record ScheduleItem =
  month :: int
  payment :: real
  interest :: real
  principal_paid :: real
  balance :: real

record LoanResult =
  monthly_payment :: real
  total_payment :: real
  total_interest :: real
  payoff_months :: nat
  apr :: real
  schedule :: "ScheduleItem list"

text \<open>The local variables that the loop of lines 77 to 106 reads and writes.\<close>

record loop_state =
  st_balance :: real
  st_schedule :: "ScheduleItem list"
  st_total_interest :: real
  st_month :: int

subsection \<open>Rounding\<close>

text \<open>
  Python's \<open>round(x, k)\<close> rounds to the nearest multiple of \<open>10 ^ -k\<close>, a tie going to the
  even neighbour. The model rounds the exact real: a decimal tie such as 0.005 or 2.675
  is a tie here, while the binary float nearest to it is not (\<open>round(0.005, 2)\<close> is 0.01
  in Python and 0 here). No property below is stated at a tie.
\<close>

definition round_half_even :: "real \<Rightarrow> int" where
  "round_half_even x =
     (let f = \<lfloor>x\<rfloor>; d = x - of_int f
      in if d < 1 / 2 then f
         else if 1 / 2 < d then f + 1
         else if even f then f else f + 1)"

definition round2 :: "real \<Rightarrow> real" where
  "round2 x = of_int (round_half_even (x * 100)) / 100"

definition round3 :: "real \<Rightarrow> real" where
  "round3 x = of_int (round_half_even (x * 1000)) / 1000"

subsection \<open>The computation\<close>

text \<open>Line 55: the monthly rate, from the annual rate in percent.\<close>

definition monthly_rate :: "LoanInput \<Rightarrow> real" where
  "monthly_rate payload = annual_rate payload / 100 / 12"

text \<open>Lines 63 to 66: the base payment, straight-line at rate zero, the annuity formula otherwise.\<close>

definition base_payment :: "real \<Rightarrow> real \<Rightarrow> int \<Rightarrow> error + real" where
  "base_payment P r n =
     (if r = 0 then Inr (P / of_int n)
      else if (1 + r) ^ nat n - 1 = 0 then Inl ZeroDivisionError
      else Inr (P * (r * (1 + r) ^ nat n) / ((1 + r) ^ nat n - 1)))"

text \<open>Lines 78 to 103: one pass through the body of the loop.\<close>

definition body :: "real \<Rightarrow> real \<Rightarrow> loop_state \<Rightarrow> error + loop_state" where
  "body r pay s =
     (let month' = st_month s + 1;
          interest_component = st_balance s * r;
          principal_component = pay - interest_component
      in if principal_component \<le> 0 \<and> 0 < r then Inl NonAmortizingPayment
         else
           let clamped = (st_balance s < principal_component);
               principal_component' = (if clamped then st_balance s else principal_component);
               payment_actual = (if clamped then interest_component + principal_component' else pay);
               balance' = st_balance s - principal_component'
           in Inr \<lparr>st_balance = balance',
                   st_schedule = st_schedule s @
                     [\<lparr>month = month',
                       payment = round2 payment_actual,
                       interest = round2 interest_component,
                       principal_paid = round2 principal_component',
                       balance = round2 (max balance' 0)\<rparr>],
                   st_total_interest = st_total_interest s + interest_component,
                   st_month = month'\<rparr>)"

text \<open>
  Lines 77 and 105 to 106: the loop runs while the balance is above half a cent and the
  month is below the safety cap, and breaks once the month has passed 3600.
\<close>

definition loop_condition :: "int \<Rightarrow> loop_state \<Rightarrow> bool" where
  "loop_condition safety_cap s \<longleftrightarrow> 0.005 < st_balance s \<and> st_month s < safety_cap"

function loop :: "real \<Rightarrow> real \<Rightarrow> int \<Rightarrow> loop_state \<Rightarrow> error + loop_state" where
  "loop r pay safety_cap s =
     (if loop_condition safety_cap s then
        (case body r pay s of
           Inl e \<Rightarrow> Inl e
         | Inr s' \<Rightarrow> if 3600 < st_month s' then Inr s' else loop r pay safety_cap s')
      else Inr s)"
  by pat_completeness auto
termination
  by (relation "measure (\<lambda>(r, pay, safety_cap, s). nat (safety_cap - st_month s))")
     (auto simp: body_def Let_def loop_condition_def split: if_splits)

declare loop.simps [simp del]

definition initial_state :: "real \<Rightarrow> loop_state" where
  "initial_state P = \<lparr>st_balance = P, st_schedule = [], st_total_interest = 0, st_month = 0\<rparr>"

text \<open>Lines 108 to 118: the totals and the result.\<close>

definition build_result :: "real \<Rightarrow> real \<Rightarrow> loop_state \<Rightarrow> LoanResult" where
  "build_result rate pay s =
     \<lparr>monthly_payment = round2 pay,
      total_payment = round2 (sum_list (map payment (st_schedule s))),
      total_interest = round2 (st_total_interest s),
      payoff_months = length (st_schedule s),
      apr = round3 rate,
      schedule = st_schedule s\<rparr>"

definition calculate_loan :: "LoanInput \<Rightarrow> error + LoanResult" where
  "calculate_loan payload =
     (let P = principal payload;
          r = monthly_rate payload;
          n = term_months payload;
          extra = extra_payment payload
      in if P \<le> 0 \<or> n \<le> 0 \<or> annual_rate payload < 0 then Inl InvalidInput
         else
           (case base_payment P r n of
              Inl e \<Rightarrow> Inl e
            | Inr base \<Rightarrow>
                (let pay = base + extra;
                     safety_cap = n + 600
                 in case loop r pay safety_cap (initial_state P) of
                      Inl e \<Rightarrow> Inl e
                    | Inr s \<Rightarrow> Inr (build_result (annual_rate payload) pay s))))"

text \<open>The inputs that the request model of lines 18 to 22 admits.\<close>

definition valid_input :: "LoanInput \<Rightarrow> bool" where
  "valid_input payload \<longleftrightarrow>
     0 < principal payload \<and> 0 \<le> annual_rate payload \<and> 0 < term_months payload \<and>
     0 \<le> extra_payment payload"

subsection \<open>Vocabulary of the properties\<close>

text \<open>
  \<open>reach r pay cap k s\<close> is the state in which the loop, started in \<open>s\<close>, evaluates its
  condition for the \<open>k+1\<close>-th time: \<open>k\<close> passes of the body have completed, none of them
  raised and none of them ended in the break of line 106. It is \<open>None\<close> when the loop does
  not get that far.
\<close>

fun reach :: "real \<Rightarrow> real \<Rightarrow> int \<Rightarrow> nat \<Rightarrow> loop_state \<Rightarrow> loop_state option" where
  "reach r pay safety_cap 0 s = Some s"
| "reach r pay safety_cap (Suc k) s =
     (if loop_condition safety_cap s then
        (case body r pay s of
           Inl e \<Rightarrow> None
         | Inr s' \<Rightarrow> if 3600 < st_month s' then None else reach r pay safety_cap k s')
      else None)"

text \<open>
  The condition of line 83 in a month that the loop enters: the principal component,
  the payment minus the interest on the current balance, is not positive while the
  monthly rate is positive.
\<close>

definition guard_fires :: "real \<Rightarrow> real \<Rightarrow> int \<Rightarrow> loop_state \<Rightarrow> bool" where
  "guard_fires r pay safety_cap s \<longleftrightarrow>
     loop_condition safety_cap s \<and> pay - st_balance s * r \<le> 0 \<and> 0 < r"

text \<open>The recorded interest and principal of an entry add up to its recorded payment, to the cent.\<close>

definition components_within_cent :: "ScheduleItem \<Rightarrow> bool" where
  "components_within_cent e \<longleftrightarrow> \<bar>interest e + principal_paid e - payment e\<bar> \<le> 1 / 100"

subsection \<open>Invariants of the loop\<close>

text \<open>
  What holds of the schedule whenever the loop evaluates its condition, in a run started
  in the initial state: one entry per month, the last entry records the current balance,
  and every earlier entry records a positive balance.
\<close>

definition schedule_inv :: "int \<Rightarrow> loop_state \<Rightarrow> bool" where
  "schedule_inv cap s \<longleftrightarrow>
     0 \<le> st_month s \<and> (st_month s \<le> cap \<or> st_month s = 0) \<and>
     length (st_schedule s) = nat (st_month s) \<and>
     (st_schedule s \<noteq> [] \<longrightarrow> balance (last (st_schedule s)) = round2 (max (st_balance s) 0)) \<and>
     (\<forall>i. Suc i < length (st_schedule s) \<longrightarrow> 0 < balance (st_schedule s ! i))"

text \<open>
  \<open>covers r base b m\<close>: \<open>m\<close> payments of \<open>base\<close> at the monthly rate \<open>r\<close> pay off the
  balance \<open>b\<close>; in value at the end of the \<open>m\<close> months, the balance is at most the payments.
\<close>

definition covers :: "real \<Rightarrow> real \<Rightarrow> real \<Rightarrow> nat \<Rightarrow> bool" where
  "covers r base b m \<longleftrightarrow> b * (1 + r) ^ m \<le> base * (\<Sum>j<m. (1 + r) ^ j)"

text \<open>
  On a valid input, in exact arithmetic, the months left until the end of the term always
  cover the balance.
\<close>

definition amort_inv :: "real \<Rightarrow> real \<Rightarrow> int \<Rightarrow> loop_state \<Rightarrow> bool" where
  "amort_inv r base n s \<longleftrightarrow>
     0 \<le> st_balance s \<and> 0 \<le> st_month s \<and> st_month s \<le> n \<and>
     covers r base (st_balance s) (nat (n - st_month s))"

text \<open>At rate zero without extra payment every month pays the same share of the principal.\<close>

definition straight_inv :: "real \<Rightarrow> int \<Rightarrow> loop_state \<Rightarrow> bool" where
  "straight_inv P n s \<longleftrightarrow>
     0 \<le> st_month s \<and> st_month s \<le> n \<and>
     st_balance s = of_int (n - st_month s) * (P / of_int n)"

section \<open>Properties of rounding\<close>

lemma round_half_even_lower: "x - 1 / 2 \<le> of_int (round_half_even x)"
  unfolding round_half_even_def Let_def by (auto; linarith)

lemma round_half_even_upper: "of_int (round_half_even x) \<le> x + 1 / 2"
  unfolding round_half_even_def Let_def by (auto; linarith)

lemma round_half_even_of_int [simp]: "round_half_even (of_int k) = k"
  unfolding round_half_even_def Let_def by simp

lemma round_half_even_ge_floor: "\<lfloor>x\<rfloor> \<le> round_half_even x"
  unfolding round_half_even_def Let_def by auto

lemma round_half_even_mono: "x \<le> y \<Longrightarrow> round_half_even x \<le> round_half_even y"
proof -
  assume xy: "x \<le> y"
  have f: "\<lfloor>x\<rfloor> \<le> \<lfloor>y\<rfloor>" using xy by (rule floor_mono)
  show ?thesis
  proof (cases "\<lfloor>x\<rfloor> = \<lfloor>y\<rfloor>")
    case True
    with xy show ?thesis unfolding round_half_even_def Let_def by auto
  next
    case False
    with f have "\<lfloor>x\<rfloor> + 1 \<le> \<lfloor>y\<rfloor>" by simp
    moreover have "round_half_even x \<le> \<lfloor>x\<rfloor> + 1"
      unfolding round_half_even_def Let_def by auto
    moreover have "\<lfloor>y\<rfloor> \<le> round_half_even y" by (rule round_half_even_ge_floor)
    ultimately show ?thesis by linarith
  qed
qed

lemma round_half_even_add:
  "\<bar>round_half_even a + round_half_even b - round_half_even (a + b)\<bar> \<le> 1"
proof -
  let ?k = "round_half_even a + round_half_even b - round_half_even (a + b)"
  have "real_of_int ?k \<le> 3 / 2" "- (3 / 2) \<le> real_of_int ?k"
    using round_half_even_lower [of a] round_half_even_upper [of a]
          round_half_even_lower [of b] round_half_even_upper [of b]
          round_half_even_lower [of "a + b"] round_half_even_upper [of "a + b"]
    by simp_all
  then have "?k < 2" "- 2 < ?k" by linarith+
  then show ?thesis by linarith
qed

lemma round2_mono: "x \<le> y \<Longrightarrow> round2 x \<le> round2 y"
  unfolding round2_def by (simp add: round_half_even_mono divide_right_mono)

lemma round2_lower: "x - 1 / 200 \<le> round2 x"
  using round_half_even_lower [of "x * 100"] unfolding round2_def by simp

lemma round2_upper: "round2 x \<le> x + 1 / 200"
  using round_half_even_upper [of "x * 100"] unfolding round2_def by simp

lemma round2_idem: "round2 (round2 x) = round2 x"
  unfolding round2_def by simp

lemma round2_small: "0 \<le> x \<Longrightarrow> x < 1 / 200 \<Longrightarrow> round2 x = 0"
proof -
  assume a: "0 \<le> x" "x < 1 / 200"
  have fl: "\<lfloor>x * 100\<rfloor> = 0" using a by (simp add: floor_eq_iff)
  show ?thesis using a unfolding round2_def round_half_even_def Let_def fl by auto
qed

lemma round2_pos: "1 / 200 < x \<Longrightarrow> 1 / 100 \<le> round2 x"
proof -
  assume a: "1 / 200 < x"
  have "1 \<le> round_half_even (x * 100)"
  proof (cases "\<lfloor>x * 100\<rfloor> = 0")
    case True
    then show ?thesis using a unfolding round_half_even_def Let_def by auto
  next
    case False
    have "0 \<le> x * 100" using a by simp
    then have "0 \<le> \<lfloor>x * 100\<rfloor>" by (simp only: zero_le_floor)
    with False have "1 \<le> \<lfloor>x * 100\<rfloor>" by linarith
    then show ?thesis using round_half_even_ge_floor [of "x * 100"] by linarith
  qed
  then have "(1::real) \<le> of_int (round_half_even (x * 100))" by linarith
  then show ?thesis unfolding round2_def by simp
qed

lemma abs_hundredth: "\<bar>k\<bar> \<le> (1::int) \<Longrightarrow> \<bar>real_of_int k / 100\<bar> \<le> 1 / 100"
  by simp

lemma round2_add: "\<bar>round2 a + round2 b - round2 (a + b)\<bar> \<le> 1 / 100"
proof -
  let ?k = "round_half_even (a * 100) + round_half_even (b * 100)
              - round_half_even (a * 100 + b * 100)"
  have k: "\<bar>?k\<bar> \<le> 1" by (rule round_half_even_add)
  have eq: "round2 a + round2 b - round2 (a + b) = real_of_int ?k / 100"
    unfolding round2_def by (simp add: distrib_right diff_divide_distrib add_divide_distrib)
  show ?thesis unfolding eq using k by (rule abs_hundredth)
qed

lemma round2_numeral [simp]: "round2 (numeral k) = numeral k" "round2 0 = 0" "round2 1 = 1"
  using round_half_even_of_int [of "numeral k * 100"] round_half_even_of_int [of 0]
    round_half_even_of_int [of 100]
  by (simp_all add: round2_def)

lemma round3_numeral [simp]: "round3 (numeral k) = numeral k" "round3 0 = 0"
  using round_half_even_of_int [of "numeral k * 1000"] round_half_even_of_int [of 0]
  by (simp_all add: round3_def)

section \<open>The loop, pass by pass\<close>

lemma loop_condition_iff:
  "loop_condition cap s \<longleftrightarrow> 1 / 200 < st_balance s \<and> st_month s < cap"
  by (simp add: loop_condition_def)

text \<open>What one pass of the body does to the state when it does not raise.\<close>

lemma body_Inr:
  assumes "body r pay s = Inr s'"
  shows "st_month s' = st_month s + 1"
    and "st_balance s' = st_balance s - min (pay - st_balance s * r) (st_balance s)"
    and "st_total_interest s' = st_total_interest s + st_balance s * r"
    and "st_schedule s' = st_schedule s @
          [\<lparr>month = st_month s + 1,
            payment = round2 (st_balance s * r + min (pay - st_balance s * r) (st_balance s)),
            interest = round2 (st_balance s * r),
            principal_paid = round2 (min (pay - st_balance s * r) (st_balance s)),
            balance = round2 (max (st_balance s') 0)\<rparr>]"
    and "\<not> (pay - st_balance s * r \<le> 0 \<and> 0 < r)"
  using assms by (auto simp: body_def Let_def min_def split: if_splits)

lemma body_Inl: "body r pay s = Inl e \<longleftrightarrow> e = NonAmortizingPayment \<and> pay - st_balance s * r \<le> 0 \<and> 0 < r"
  by (auto simp: body_def Let_def)

text \<open>A property that every pass preserves holds of the state the loop returns.\<close>

lemma loop_invariant:
  assumes "loop r pay cap s = Inr t" and "I s"
    and "\<And>u v. I u \<Longrightarrow> loop_condition cap u \<Longrightarrow> body r pay u = Inr v \<Longrightarrow> I v"
  shows "I t"
  using assms
proof (induction r pay cap s rule: loop.induct)
  case (1 r pay cap s)
  note step = "1.prems"(3)
  show ?case
  proof (cases "loop_condition cap s")
    case False
    with "1.prems"(1,2) show ?thesis by (simp add: loop.simps)
  next
    case True
    show ?thesis
    proof (cases "body r pay s")
      case (Inl e)
      with True "1.prems"(1) show ?thesis by (simp add: loop.simps)
    next
      case (Inr s')
      have Is': "I s'" by (rule step [OF "1.prems"(2) True Inr])
      show ?thesis
      proof (cases "3600 < st_month s'")
        case True
        with \<open>loop_condition cap s\<close> Inr "1.prems"(1) have "t = s'"
          by (simp add: loop.simps [of r pay cap s])
        with Is' show ?thesis by simp
      next
        case False
        with \<open>loop_condition cap s\<close> Inr "1.prems"(1) have "loop r pay cap s' = Inr t"
          by (simp add: loop.simps [of r pay cap s])
        then show ?thesis
          by (rule "1.IH" [OF \<open>loop_condition cap s\<close> Inr False _ Is' step])
      qed
    qed
  qed
qed

lemma components_within_cent_new:
  "components_within_cent \<lparr>month = m, payment = round2 (a + b), interest = round2 a, principal_paid = round2 b, balance = c\<rparr>"
  by (simp only: components_within_cent_def ScheduleItem.select_convs round2_add)

lemma body_components_within_cent:
  assumes "body r pay s = Inr s'" and "\<forall>e\<in>set (st_schedule s). components_within_cent e"
  shows "\<forall>e\<in>set (st_schedule s'). components_within_cent e"
  using assms(2) by (simp add: body_Inr(4) [OF assms(1)] components_within_cent_new)

text \<open>A successful call went through the validation, the base payment and the loop.\<close>

lemma calculate_loan_Inr:
  assumes "calculate_loan payload = Inr res"
  obtains base s where
    "base_payment (principal payload) (monthly_rate payload) (term_months payload) = Inr base"
    "loop (monthly_rate payload) (base + extra_payment payload) (term_months payload + 600)
       (initial_state (principal payload)) = Inr s"
    "res = build_result (annual_rate payload) (base + extra_payment payload) s"
    "0 < principal payload" "0 < term_months payload" "0 \<le> annual_rate payload"
  using assms by (auto simp: calculate_loan_def Let_def split: if_splits sum.splits)

text \<open>
  The loop fails exactly when some month that it enters meets the condition of line 83,
  and no run has two such months.
\<close>

lemma loop_Inl_iff:
  "loop r pay cap s = Inl e \<longleftrightarrow>
     e = NonAmortizingPayment \<and> (\<exists>k t. reach r pay cap k s = Some t \<and> guard_fires r pay cap t)"
proof (induction r pay cap s rule: loop.induct)
  case (1 r pay cap s)
  show ?case
  proof (cases "loop_condition cap s")
    case False
    have "\<not> (\<exists>k t. reach r pay cap k s = Some t \<and> guard_fires r pay cap t)"
    proof
      assume "\<exists>k t. reach r pay cap k s = Some t \<and> guard_fires r pay cap t"
      then obtain k t where kt: "reach r pay cap k s = Some t" "guard_fires r pay cap t" by blast
      show False
      proof (cases k)
        case 0
        with kt False show False by (simp add: guard_fires_def)
      next
        case (Suc k')
        with kt False show False by simp
      qed
    qed
    with False show ?thesis by (simp add: loop.simps [of r pay cap s])
  next
    case True
    show ?thesis
    proof (cases "body r pay s")
      case (Inl e')
      then have g: "guard_fires r pay cap s" "e' = NonAmortizingPayment"
        using True by (simp_all add: guard_fires_def body_Inl)
      have "reach r pay cap 0 s = Some s" by simp
      with g have "\<exists>k t. reach r pay cap k s = Some t \<and> guard_fires r pay cap t" by blast
      with True Inl g show ?thesis by (auto simp: loop.simps [of r pay cap s])
    next
      case (Inr s')
      have ng: "\<not> guard_fires r pay cap s"
        using body_Inr(5) [OF Inr] by (simp add: guard_fires_def)
      show ?thesis
      proof (cases "3600 < st_month s'")
        case stop: True
        have "\<not> (\<exists>k t. reach r pay cap k s = Some t \<and> guard_fires r pay cap t)"
        proof
          assume "\<exists>k t. reach r pay cap k s = Some t \<and> guard_fires r pay cap t"
          then obtain k t where kt: "reach r pay cap k s = Some t" "guard_fires r pay cap t" by blast
          show False
          proof (cases k)
            case 0
            with kt ng show False by simp
          next
            case (Suc k')
            with kt True Inr stop show False by simp
          qed
        qed
        with True Inr stop show ?thesis by (simp add: loop.simps [of r pay cap s])
      next
        case go: False
        have l: "loop r pay cap s = loop r pay cap s'"
          using True Inr go by (simp add: loop.simps [of r pay cap s])
        have "(\<exists>k t. reach r pay cap k s = Some t \<and> guard_fires r pay cap t) \<longleftrightarrow>
              (\<exists>k t. reach r pay cap k s' = Some t \<and> guard_fires r pay cap t)"
        proof
          assume "\<exists>k t. reach r pay cap k s = Some t \<and> guard_fires r pay cap t"
          then obtain k t where kt: "reach r pay cap k s = Some t" "guard_fires r pay cap t" by blast
          show "\<exists>k t. reach r pay cap k s' = Some t \<and> guard_fires r pay cap t"
          proof (cases k)
            case 0
            with kt ng show ?thesis by simp
          next
            case (Suc k')
            with kt True Inr go have "reach r pay cap k' s' = Some t" by simp
            with kt(2) show ?thesis by blast
          qed
        next
          assume "\<exists>k t. reach r pay cap k s' = Some t \<and> guard_fires r pay cap t"
          then obtain k t where kt: "reach r pay cap k s' = Some t" "guard_fires r pay cap t" by blast
          then have "reach r pay cap (Suc k) s = Some t" using True Inr go by simp
          with kt(2) show "\<exists>k t. reach r pay cap k s = Some t \<and> guard_fires r pay cap t" by blast
        qed
        with l "1.IH" [OF True Inr go] show ?thesis by simp
      qed
    qed
  qed
qed

lemma guard_fires_once:
  "reach r pay cap k s = Some t \<Longrightarrow> guard_fires r pay cap t \<Longrightarrow>
   reach r pay cap j s = Some u \<Longrightarrow> guard_fires r pay cap u \<Longrightarrow> j = k"
proof (induction k arbitrary: j s)
  case 0
  then have g: "guard_fires r pay cap s" by simp
  show ?case
  proof (cases j)
    case 0
    then show ?thesis by simp
  next
    case (Suc j')
    from g have "body r pay s = Inl NonAmortizingPayment"
      by (simp add: guard_fires_def body_Inl)
    with Suc "0.prems"(3) show ?thesis by (simp split: if_splits)
  qed
next
  case (Suc k)
  from Suc.prems(1) obtain s' where s': "body r pay s = Inr s'" "reach r pay cap k s' = Some t"
    by (auto split: if_splits sum.splits)
  show ?case
  proof (cases j)
    case 0
    with Suc.prems(3,4) have "guard_fires r pay cap s" by simp
    then have "body r pay s = Inl NonAmortizingPayment"
      by (simp add: guard_fires_def body_Inl)
    with s' show ?thesis by simp
  next
    case j: (Suc j')
    with Suc.prems(3) s'(1) have "reach r pay cap j' s' = Some u"
      by (auto split: if_splits)
    from Suc.IH [OF s'(2) Suc.prems(2) this Suc.prems(4)] j show ?thesis by simp
  qed
qed

lemma calculate_loan_Inl_iff:
  "calculate_loan payload = Inl NonAmortizingPayment \<longleftrightarrow>
     0 < principal payload \<and> 0 < term_months payload \<and> 0 \<le> annual_rate payload \<and>
     (\<exists>base. base_payment (principal payload) (monthly_rate payload) (term_months payload) = Inr base \<and>
        loop (monthly_rate payload) (base + extra_payment payload) (term_months payload + 600)
            (initial_state (principal payload)) = Inl NonAmortizingPayment)"
  by (auto simp: calculate_loan_def Let_def base_payment_def split: sum.splits if_splits)

section \<open>Sample loans\<close>

lemma one_month_run:
  "calculate_loan \<lparr>principal = 1200, annual_rate = 12, term_months = 1, extra_payment = 0\<rparr>
     = Inr \<lparr>monthly_payment = 1212, total_payment = 1212, total_interest = 12, payoff_months = 1,
            apr = 12,
            schedule = [\<lparr>month = 1, payment = 1212, interest = 12, principal_paid = 1200, balance = 0\<rparr>]\<rparr>"
  by (simp add: calculate_loan_def monthly_rate_def base_payment_def initial_state_def Let_def
      loop.simps loop_condition_def body_def build_result_def)


lemma two_month_run:
  "calculate_loan \<lparr>principal = 1200, annual_rate = 12, term_months = 2, extra_payment = 0\<rparr>
     = Inr \<lparr>monthly_payment = 60901 / 100, total_payment = 121802 / 100, total_interest = 1803 / 100,
            payoff_months = 2, apr = 12,
            schedule = [\<lparr>month = 1, payment = 60901 / 100, interest = 12,
                         principal_paid = 59701 / 100, balance = 60299 / 100\<rparr>,
                        \<lparr>month = 2, payment = 60901 / 100, interest = 603 / 100,
                         principal_paid = 60299 / 100, balance = 0\<rparr>]\<rparr>"
proof -
  have r: "round2 (40804 / 67) = 60901 / 100" "round2 (40000 / 67) = 59701 / 100"
    "round2 (40400 / 67) = 60299 / 100" "round2 (404 / 67) = 603 / 100"
    "round2 (1208 / 67) = 1803 / 100" "round2 (60901 / 50) = 60901 / 50"
    by (simp_all add: round2_def round_half_even_def Let_def)
  show ?thesis
    by (simp add: calculate_loan_def monthly_rate_def base_payment_def initial_state_def Let_def
        loop.simps loop_condition_def body_def build_result_def power2_eq_square r)
qed


section \<open>How the loop ends\<close>

text \<open>
  A run whose every pass succeeds and preserves a property returns a state with that
  property, in which the condition of line 77 is false or the month has passed 3600.
\<close>

lemma loop_total:
  assumes "I s"
    and "\<And>u. I u \<Longrightarrow> loop_condition cap u \<Longrightarrow> \<exists>v. body r pay u = Inr v \<and> I v"
  shows "\<exists>t. loop r pay cap s = Inr t \<and> I t \<and> (\<not> loop_condition cap t \<or> 3600 < st_month t)"
  using assms
proof (induction r pay cap s rule: loop.induct)
  case (1 r pay cap s)
  note step = "1.prems"(2)
  show ?case
  proof (cases "loop_condition cap s")
    case False
    with "1.prems"(1) show ?thesis by (simp add: loop.simps [of r pay cap s])
  next
    case True
    from step [OF "1.prems"(1) True] obtain s' where s': "body r pay s = Inr s'" "I s'" by blast
    show ?thesis
    proof (cases "3600 < st_month s'")
      case stop: True
      with True s' show ?thesis by (simp add: loop.simps [of r pay cap s])
    next
      case False
      have "\<exists>t. loop r pay cap s' = Inr t \<and> I t \<and> (\<not> loop_condition cap t \<or> 3600 < st_month t)"
        by (rule "1.IH" [OF True s'(1) False s'(2) step])
      with True s'(1) False show ?thesis by (simp add: loop.simps [of r pay cap s])
    qed
  qed
qed

lemma loop_exit:
  "loop r pay cap s = Inr t \<Longrightarrow> \<not> loop_condition cap t \<or> 3600 < st_month t"
proof (induction r pay cap s rule: loop.induct)
  case (1 r pay cap s)
  show ?case
  proof (cases "loop_condition cap s")
    case False
    with "1.prems" show ?thesis by (simp add: loop.simps [of r pay cap s])
  next
    case True
    show ?thesis
    proof (cases "body r pay s")
      case (Inl e)
      with True "1.prems" show ?thesis by (simp add: loop.simps [of r pay cap s])
    next
      case (Inr s')
      show ?thesis
      proof (cases "3600 < st_month s'")
        case stop: True
        with True Inr "1.prems" show ?thesis by (simp add: loop.simps [of r pay cap s])
      next
        case False
        with True Inr "1.prems" have "loop r pay cap s' = Inr t"
          by (simp add: loop.simps [of r pay cap s])
        then show ?thesis by (rule "1.IH" [OF True Inr False])
      qed
    qed
  qed
qed

lemma loop_month_le:
  "loop r pay cap s = Inr t \<Longrightarrow> st_month s \<le> 3600 \<Longrightarrow> st_month t \<le> 3601"
proof (induction r pay cap s rule: loop.induct)
  case (1 r pay cap s)
  show ?case
  proof (cases "loop_condition cap s")
    case False
    with "1.prems" show ?thesis by (simp add: loop.simps [of r pay cap s])
  next
    case True
    show ?thesis
    proof (cases "body r pay s")
      case (Inl e)
      with True "1.prems" show ?thesis by (simp add: loop.simps [of r pay cap s])
    next
      case (Inr s')
      have m: "st_month s' = st_month s + 1" by (rule body_Inr(1) [OF Inr])
      show ?thesis
      proof (cases "3600 < st_month s'")
        case stop: True
        with True Inr "1.prems"(1) have "t = s'" by (simp add: loop.simps [of r pay cap s])
        with m "1.prems"(2) show ?thesis by simp
      next
        case False
        with True Inr "1.prems" have "loop r pay cap s' = Inr t"
          by (simp add: loop.simps [of r pay cap s])
        then show ?thesis using False by (intro "1.IH" [OF True Inr False]) simp_all
      qed
    qed
  qed
qed

text \<open>The break of line 106 bounds the number of passes, and it needs a term above 3000 months.\<close>

lemma schedule_inv_initial: "schedule_inv cap (initial_state P)"
  by (simp add: schedule_inv_def initial_state_def)

lemma schedule_inv_body:
  assumes "schedule_inv cap s" and "loop_condition cap s" and "body r pay s = Inr s'"
  shows "schedule_inv cap s'"
proof -
  note b = body_Inr [OF assms(3)]
  from assms(2) have pos: "1 / 200 < st_balance s" and lt: "st_month s < cap"
    by (simp_all add: loop_condition_iff)
  from assms(1) have m0: "0 \<le> st_month s" and len: "length (st_schedule s) = nat (st_month s)"
    and lst: "st_schedule s \<noteq> [] \<longrightarrow> balance (last (st_schedule s)) = round2 (max (st_balance s) 0)"
    and prev: "\<forall>i. Suc i < length (st_schedule s) \<longrightarrow> 0 < balance (st_schedule s ! i)"
    by (simp_all add: schedule_inv_def)
  have "\<forall>i. Suc i < length (st_schedule s') \<longrightarrow> 0 < balance (st_schedule s' ! i)"
  proof (intro allI impI)
    fix i assume i: "Suc i < length (st_schedule s')"
    then have i': "i < length (st_schedule s)" by (simp add: b(4))
    show "0 < balance (st_schedule s' ! i)"
    proof (cases "Suc i < length (st_schedule s)")
      case True
      with prev i' show ?thesis by (simp add: b(4) nth_append)
    next
      case False
      with i' have e: "i = length (st_schedule s) - 1" and ne: "st_schedule s \<noteq> []" by auto
      have "st_schedule s ! i = last (st_schedule s)" using ne e by (simp add: last_conv_nth)
      moreover have "1 / 100 \<le> round2 (max (st_balance s) 0)"
        using pos by (intro round2_pos) simp
      ultimately show ?thesis using lst ne i' by (simp add: b(4) nth_append)
    qed
  qed
  then show ?thesis using m0 lt len
    unfolding schedule_inv_def by (simp add: b(1) b(4) nat_add_distrib)
qed

lemma loop_schedule_inv:
  "loop r pay cap (initial_state P) = Inr t \<Longrightarrow> schedule_inv cap t"
  by (erule loop_invariant [where I = "schedule_inv cap"])
     (auto intro: schedule_inv_initial schedule_inv_body)

lemma payoff_months_le_3601:
  assumes "calculate_loan payload = Inr res"
  shows "payoff_months res \<le> 3601"
    and "3600 < payoff_months res \<Longrightarrow> 3000 < term_months payload"
proof -
  from assms obtain base s where
    l: "loop (monthly_rate payload) (base + extra_payment payload) (term_months payload + 600)
       (initial_state (principal payload)) = Inr s"
    and res: "res = build_result (annual_rate payload) (base + extra_payment payload) s"
    by (rule calculate_loan_Inr)
  have si: "schedule_inv (term_months payload + 600) s" by (rule loop_schedule_inv [OF l])
  have le: "st_month s \<le> 3601" by (rule loop_month_le [OF l]) (simp add: initial_state_def)
  from si have len: "length (st_schedule s) = nat (st_month s)"
    and cap: "st_month s \<le> term_months payload + 600 \<or> st_month s = 0"
    by (simp_all add: schedule_inv_def)
  show "payoff_months res \<le> 3601" using le len by (simp add: res build_result_def)
  show "3000 < term_months payload" if "3600 < payoff_months res"
  proof -
    from that len have "3600 < nat (st_month s)" by (simp add: res build_result_def)
    then have "3600 < st_month s" by linarith
    with cap show ?thesis by linarith
  qed
qed

section \<open>The annuity\<close>

lemma rate_geometric: "r * (\<Sum>j<m. (1 + r) ^ j) = (1 + r) ^ m - (1::real)"
  by (induction m) (simp_all add: algebra_simps)

lemma covers_0: "covers r base b 0 \<longleftrightarrow> b \<le> 0"
  by (simp add: covers_def)

lemma geometric_nonneg: "0 \<le> r \<Longrightarrow> 0 \<le> (\<Sum>j<m. (1 + r) ^ j :: real)"
  by (intro sum_nonneg) simp

text \<open>The payment exceeds the interest while payments remain to be made.\<close>

lemma covers_interest:
  assumes "0 \<le> r" and "0 < base" and "covers r base b m"
  shows "b * r < base"
proof -
  have pos: "0 < (1 + r) ^ m" using assms(1) by simp
  have "b * r * (1 + r) ^ m = r * (b * (1 + r) ^ m)" by simp
  also have "\<dots> \<le> r * (base * (\<Sum>j<m. (1 + r) ^ j))"
    using assms(1,3) unfolding covers_def by (intro mult_left_mono)
  also have "\<dots> = base * (r * (\<Sum>j<m. (1 + r) ^ j))" by simp
  also have "\<dots> = base * ((1 + r) ^ m - 1)" by (simp only: rate_geometric)
  also have "\<dots> < base * (1 + r) ^ m" using assms(2) by (simp add: algebra_simps)
  finally show ?thesis using pos by simp
qed

lemma covers_step:
  assumes "0 \<le> r" and "0 < base" and "base \<le> pay" and "covers r base b (Suc m)"
  shows "covers r base (max (b * (1 + r) - pay) 0) m"
proof (cases "b * (1 + r) - pay \<le> 0")
  case True
  then have "max (b * (1 + r) - pay) 0 = 0" by simp
  moreover have "0 \<le> base * (\<Sum>j<m. (1 + r) ^ j)"
    using assms(1,2) geometric_nonneg [of r m] by simp
  ultimately show ?thesis by (simp add: covers_def)
next
  case False
  then have mx: "max (b * (1 + r) - pay) 0 = b * (1 + r) - pay" by simp
  have p: "0 \<le> (1 + r) ^ m" using assms(1) by simp
  have "(b * (1 + r) - pay) * (1 + r) ^ m = b * (1 + r) ^ Suc m - pay * (1 + r) ^ m"
    by (simp add: algebra_simps)
  also have "\<dots> \<le> b * (1 + r) ^ Suc m - base * (1 + r) ^ m"
    using assms(3) p by (simp add: mult_right_mono)
  also have "\<dots> \<le> base * (\<Sum>j<Suc m. (1 + r) ^ j) - base * (1 + r) ^ m"
    using assms(4) unfolding covers_def by simp
  also have "\<dots> = base * (\<Sum>j<m. (1 + r) ^ j)" by (simp add: algebra_simps)
  finally show ?thesis unfolding covers_def mx .
qed

lemma base_payment_valid:
  assumes "0 < P" and "0 \<le> r" and "0 < n"
  shows "\<exists>base. base_payment P r n = Inr base \<and> 0 < base \<and> covers r base P (nat n)"
proof (cases "r = 0")
  case True
  have "real_of_int n \<noteq> 0" using assms(3) by simp
  then have "P / real_of_int n * real (nat n) = P" using assms(3) by simp
  then show ?thesis using True assms by (simp add: base_payment_def covers_def)
next
  case False
  with assms(2) have r: "0 < r" by simp
  let ?q = "(1 + r) ^ nat n"
  have n: "0 < nat n" using assms(3) by simp
  have q: "1 < ?q" using r n by (intro one_less_power) simp_all
  have geo: "(\<Sum>j<nat n. (1 + r) ^ j) = (?q - 1) / r"
    using rate_geometric [of r "nat n"] r by (simp add: field_simps)
  have "P * (r * ?q) / (?q - 1) * ((?q - 1) / r) = P * ?q"
    using q r by (simp add: field_simps)
  moreover have "0 < P * (r * ?q) / (?q - 1)" using assms(1) r q by simp
  ultimately show ?thesis using False q
    by (simp add: base_payment_def covers_def geo)
qed

lemma amort_inv_body:
  assumes r: "0 \<le> r" and base: "0 < base" and pay: "base \<le> pay"
    and inv: "amort_inv r base n s" and cond: "loop_condition cap s"
  shows "\<exists>v. body r pay s = Inr v \<and> amort_inv r base n v"
proof -
  from inv have b0: "0 \<le> st_balance s" and m0: "0 \<le> st_month s" and mn: "st_month s \<le> n"
    and cov: "covers r base (st_balance s) (nat (n - st_month s))"
    by (simp_all add: amort_inv_def)
  from cond have pos: "1 / 200 < st_balance s" by (simp add: loop_condition_iff)
  have "nat (n - st_month s) \<noteq> 0"
  proof
    assume "nat (n - st_month s) = 0"
    with cov have "st_balance s \<le> 0" by (simp add: covers_0)
    with pos show False by simp
  qed
  then obtain m where m: "nat (n - st_month s) = Suc m" by (cases "nat (n - st_month s)") simp_all
  then have lt: "st_month s < n" by linarith
  have m': "nat (n - (st_month s + 1)) = m" using m by linarith
  have int: "st_balance s * r < pay" using covers_interest [OF r base cov] pay by simp
  then have "\<not> (pay - st_balance s * r \<le> 0 \<and> 0 < r)" by simp
  then obtain v where v: "body r pay s = Inr v"
    by (cases "body r pay s") (simp_all add: body_Inl)
  note bv = body_Inr [OF v]
  have bal: "st_balance v = max (st_balance s * (1 + r) - pay) 0"
    unfolding bv(2) by (simp add: min_def max_def algebra_simps)
  have "covers r base (st_balance v) m"
    unfolding bal using cov unfolding m by (rule covers_step [OF r base pay])
  then have "amort_inv r base n v"
    using m0 lt m' by (simp add: amort_inv_def bv(1) bal)
  with v show ?thesis by blast
qed

lemma valid_run:
  assumes "valid_input payload"
  obtains base t where
    "base_payment (principal payload) (monthly_rate payload) (term_months payload) = Inr base"
    "0 < base"
    "loop (monthly_rate payload) (base + extra_payment payload) (term_months payload + 600)
       (initial_state (principal payload)) = Inr t"
    "amort_inv (monthly_rate payload) base (term_months payload) t"
    "\<not> loop_condition (term_months payload + 600) t \<or> 3600 < st_month t"
    "calculate_loan payload = Inr (build_result (annual_rate payload) (base + extra_payment payload) t)"
proof -
  from assms have P: "0 < principal payload" and rate: "0 \<le> annual_rate payload"
    and n: "0 < term_months payload" and extra: "0 \<le> extra_payment payload"
    by (simp_all add: valid_input_def)
  have r: "0 \<le> monthly_rate payload" using rate by (simp add: monthly_rate_def)
  from base_payment_valid [OF P r n] obtain base where
    base: "base_payment (principal payload) (monthly_rate payload) (term_months payload) = Inr base"
    and bpos: "0 < base"
    and cov: "covers (monthly_rate payload) base (principal payload) (nat (term_months payload))"
    by blast
  have init: "amort_inv (monthly_rate payload) base (term_months payload)
      (initial_state (principal payload))"
    using P n cov by (simp add: amort_inv_def initial_state_def)
  have pay: "base \<le> base + extra_payment payload" using extra by simp
  have "\<exists>t. loop (monthly_rate payload) (base + extra_payment payload) (term_months payload + 600)
       (initial_state (principal payload)) = Inr t \<and>
       amort_inv (monthly_rate payload) base (term_months payload) t \<and>
       (\<not> loop_condition (term_months payload + 600) t \<or> 3600 < st_month t)"
  proof (rule loop_total [where I = "amort_inv (monthly_rate payload) base (term_months payload)"])
    show "amort_inv (monthly_rate payload) base (term_months payload)
      (initial_state (principal payload))" by (rule init)
  next
    fix u
    assume "amort_inv (monthly_rate payload) base (term_months payload) u"
      and "loop_condition (term_months payload + 600) u"
    then show "\<exists>v. body (monthly_rate payload) (base + extra_payment payload) u = Inr v \<and>
        amort_inv (monthly_rate payload) base (term_months payload) v"
      by (rule amort_inv_body [OF r bpos pay])
  qed
  then obtain t where
    t: "loop (monthly_rate payload) (base + extra_payment payload) (term_months payload + 600)
       (initial_state (principal payload)) = Inr t"
    and inv: "amort_inv (monthly_rate payload) base (term_months payload) t"
    and ex: "\<not> loop_condition (term_months payload + 600) t \<or> 3600 < st_month t"
    by blast
  have "calculate_loan payload = Inr (build_result (annual_rate payload) (base + extra_payment payload) t)"
    using P n rate base t by (simp add: calculate_loan_def Let_def)
  with base bpos t inv ex show ?thesis by (rule that)
qed

section \<open>Rate zero\<close>

lemma straight_inv_body:
  assumes P: "0 < P" and n: "0 < n" and inv: "straight_inv P n s" and cond: "loop_condition cap s"
    and b: "body 0 (P / of_int n) s = Inr v"
  shows "straight_inv P n v"
proof -
  from inv have m0: "0 \<le> st_month s" and mn: "st_month s \<le> n"
    and bal: "st_balance s = of_int (n - st_month s) * (P / of_int n)"
    by (simp_all add: straight_inv_def)
  have pay: "0 < P / of_int n" using P n by simp
  from cond have pos: "1 / 200 < st_balance s" by (simp add: loop_condition_iff)
  have "st_month s \<noteq> n" using pos bal by auto
  with mn have lt: "st_month s < n" by simp
  then have "1 \<le> real_of_int (n - st_month s)" by linarith
  then have "1 * (P / of_int n) \<le> of_int (n - st_month s) * (P / of_int n)"
    using pay by (intro mult_right_mono) simp_all
  then have ge: "P / of_int n \<le> st_balance s" using bal by simp
  note bv = body_Inr [OF b]
  have "st_balance v = st_balance s - P / of_int n" unfolding bv(2) using ge by simp
  also have "\<dots> = of_int (n - (st_month s + 1)) * (P / of_int n)"
    unfolding bal by (simp add: algebra_simps)
  finally show ?thesis using m0 lt by (simp add: straight_inv_def bv(1))
qed

lemma zero_rate_run:
  assumes P: "0 < principal payload" and n: "0 < term_months payload"
    and rate: "annual_rate payload = 0" and extra: "extra_payment payload = 0"
  obtains t where
    "loop 0 (principal payload / of_int (term_months payload)) (term_months payload + 600)
       (initial_state (principal payload)) = Inr t"
    "calculate_loan payload
       = Inr (build_result 0 (principal payload / of_int (term_months payload)) t)"
    "straight_inv (principal payload) (term_months payload) t"
proof -
  have v: "valid_input payload" using assms by (simp add: valid_input_def)
  have r: "monthly_rate payload = 0" using rate by (simp add: monthly_rate_def)
  have bp: "base_payment (principal payload) 0 (term_months payload)
      = Inr (principal payload / of_int (term_months payload))"
    by (simp add: base_payment_def)
  from v obtain base t where
    "base_payment (principal payload) (monthly_rate payload) (term_months payload) = Inr base"
    "loop (monthly_rate payload) (base + extra_payment payload) (term_months payload + 600)
       (initial_state (principal payload)) = Inr t"
    "calculate_loan payload = Inr (build_result (annual_rate payload) (base + extra_payment payload) t)"
    by (rule valid_run)
  then have l: "loop 0 (principal payload / of_int (term_months payload)) (term_months payload + 600)
       (initial_state (principal payload)) = Inr t"
    and c: "calculate_loan payload
       = Inr (build_result 0 (principal payload / of_int (term_months payload)) t)"
    using r bp rate extra by simp_all
  have "straight_inv (principal payload) (term_months payload) t"
  proof (rule loop_invariant [OF l, where I = "straight_inv (principal payload) (term_months payload)"])
    show "straight_inv (principal payload) (term_months payload) (initial_state (principal payload))"
      using n by (simp add: straight_inv_def initial_state_def)
  next
    fix u v
    assume "straight_inv (principal payload) (term_months payload) u"
      and "loop_condition (term_months payload + 600) u"
      and "body 0 (principal payload / of_int (term_months payload)) u = Inr v"
    then show "straight_inv (principal payload) (term_months payload) v"
      by (rule straight_inv_body [OF P n])
  qed
  with l c show ?thesis by (rule that)
qed

text \<open>A loan of 4000 months at rate zero: the break of line 106 ends the loop in month 3601.\<close>

lemma hard_stop_run:
  obtains t where
    "loop 0 250 4600 (initial_state 1000000) = Inr t"
    "calculate_loan \<lparr>principal = 1000000, annual_rate = 0, term_months = 4000, extra_payment = 0\<rparr>
       = Inr (build_result 0 250 t)"
    "st_month t = 3601" "st_balance t = 99750" "length (st_schedule t) = 3601"
    "balance (last (st_schedule t)) = 99750"
proof -
  let ?X = "\<lparr>principal = 1000000, annual_rate = 0, term_months = 4000, extra_payment = 0\<rparr>"
  have "0 < principal ?X" "0 < term_months ?X" "annual_rate ?X = 0" "extra_payment ?X = 0"
    by simp_all
  then obtain t where
    "loop 0 (principal ?X / of_int (term_months ?X)) (term_months ?X + 600)
       (initial_state (principal ?X)) = Inr t"
    "calculate_loan ?X = Inr (build_result 0 (principal ?X / of_int (term_months ?X)) t)"
    "straight_inv (principal ?X) (term_months ?X) t"
    by (rule zero_rate_run)
  then have l: "loop 0 250 4600 (initial_state 1000000) = Inr t"
    and c: "calculate_loan ?X = Inr (build_result 0 250 t)"
    and inv: "straight_inv 1000000 4000 t"
    by simp_all
  from inv have bal: "st_balance t = of_int (4000 - st_month t) * 250" and m0: "0 \<le> st_month t"
    by (simp_all add: straight_inv_def)
  have le: "st_month t \<le> 3601" by (rule loop_month_le [OF l]) (simp add: initial_state_def)
  have "\<not> loop_condition 4600 t \<or> 3600 < st_month t" by (rule loop_exit [OF l])
  moreover have "loop_condition 4600 t" if "st_month t \<le> 3600"
  proof -
    have "400 \<le> real_of_int (4000 - st_month t)" using that by linarith
    then have "400 * 250 \<le> real_of_int (4000 - st_month t) * 250"
      by (intro mult_right_mono) simp_all
    then have "1 / 200 < st_balance t" unfolding bal by simp
    with that show ?thesis by (simp add: loop_condition_iff)
  qed
  ultimately have "3600 < st_month t" by fastforce
  with le have m: "st_month t = 3601" by simp
  then have b: "st_balance t = 99750" using bal by simp
  have si: "schedule_inv 4600 t" by (rule loop_schedule_inv [OF l])
  then have len: "length (st_schedule t) = 3601" using m by (simp add: schedule_inv_def)
  then have "st_schedule t \<noteq> []" by auto
  with si have "balance (last (st_schedule t)) = round2 (max (st_balance t) 0)"
    by (simp add: schedule_inv_def)
  then have "balance (last (st_schedule t)) = 99750" using b by simp
  with l c m b len show ?thesis by (rule that)
qed


section \<open>A larger payment\<close>




section \<open>Validation\<close>

text \<open>
  C6: a principal that is not positive, a term that is not positive or a negative annual
  rate makes \<open>calculate_loan\<close> fail with \<open>InvalidInput\<close>. The failure is a value that
  carries no schedule, and it is decided before the loop is entered: the result does not
  depend on the loop at all.
\<close>

theorem invalid_input_rejected:
  "principal payload \<le> 0 \<or> term_months payload \<le> 0 \<or> annual_rate payload < 0
     \<Longrightarrow> calculate_loan payload = Inl InvalidInput"
  by (simp add: calculate_loan_def Let_def)

theorem invalid_input_rejected_witness:
  "calculate_loan \<lparr>principal = 0, annual_rate = 5, term_months = 12, extra_payment = 0\<rparr>
     = Inl InvalidInput
   \<and> calculate_loan \<lparr>principal = 1000, annual_rate = 5, term_months = 0, extra_payment = 0\<rparr>
     = Inl InvalidInput
   \<and> calculate_loan \<lparr>principal = 1000, annual_rate = - 1, term_months = 12, extra_payment = 0\<rparr>
     = Inl InvalidInput"
  using invalid_input_rejected
          [of "\<lparr>principal = 0, annual_rate = 5, term_months = 12, extra_payment = 0\<rparr>"]
        invalid_input_rejected
          [of "\<lparr>principal = 1000, annual_rate = 5, term_months = 0, extra_payment = 0\<rparr>"]
        invalid_input_rejected
          [of "\<lparr>principal = 1000, annual_rate = - 1, term_months = 12, extra_payment = 0\<rparr>"]
  by simp

section \<open>The final-month clamp\<close>

text \<open>
  C7: in a pass of the loop whose unclamped principal component exceeds the current
  balance, the principal component is clamped to the balance (the balance becomes zero),
  the payment recorded is the rounded sum of the interest component and the clamped
  principal component, and that sum is at most the scheduled payment. In every other
  pass the payment recorded is the rounded scheduled payment.
\<close>

theorem final_month_clamp:
  assumes "body r pay s = Inr s'"
  shows "(st_balance s < pay - st_balance s * r \<longrightarrow>
            st_balance s' = 0 \<and>
            principal_paid (last (st_schedule s')) = round2 (st_balance s) \<and>
            payment (last (st_schedule s')) = round2 (st_balance s * r + st_balance s) \<and>
            st_balance s * r + st_balance s \<le> pay \<and>
            payment (last (st_schedule s')) \<le> round2 pay) \<and>
         (\<not> st_balance s < pay - st_balance s * r \<longrightarrow>
            st_balance s' = st_balance s - (pay - st_balance s * r) \<and>
            principal_paid (last (st_schedule s')) = round2 (pay - st_balance s * r) \<and>
            payment (last (st_schedule s')) = round2 pay)"
proof (cases "st_balance s < pay - st_balance s * r")
  case True
  then have m: "min (pay - st_balance s * r) (st_balance s) = st_balance s" by simp
  have le: "st_balance s * r + st_balance s \<le> pay" using True by simp
  show ?thesis using True le round2_mono [OF le]
    by (simp add: body_Inr(2,4) [OF assms] m)
next
  case False
  then have m: "min (pay - st_balance s * r) (st_balance s) = pay - st_balance s * r" by simp
  show ?thesis using False
    by (simp add: body_Inr(2,4) [OF assms] m)
qed

theorem final_month_clamp_witness:
  "body (1 / 100) 200 \<lparr>st_balance = 100, st_schedule = [], st_total_interest = 0, st_month = 11\<rparr>
     = Inr \<lparr>st_balance = 0,
            st_schedule = [\<lparr>month = 12, payment = 101, interest = 1, principal_paid = 100, balance = 0\<rparr>],
            st_total_interest = 1, st_month = 12\<rparr>
   \<and> (101::real) \<le> 200 \<and> round2 101 \<le> round2 200
   \<and> body (1 / 100) 200 \<lparr>st_balance = 1000, st_schedule = [], st_total_interest = 0, st_month = 0\<rparr>
     = Inr \<lparr>st_balance = 810,
            st_schedule = [\<lparr>month = 1, payment = 200, interest = 10, principal_paid = 190, balance = 810\<rparr>],
            st_total_interest = 10, st_month = 1\<rparr>"
proof -
  have r: "round2 0 = 0" "round2 1 = 1" "round2 10 = 10" "round2 100 = 100" "round2 101 = 101"
    "round2 190 = 190" "round2 200 = 200" "round2 810 = 810"
    by (simp_all add: round2_def round_half_even_def)
  have b1: "body (1 / 100) 200 \<lparr>st_balance = 100, st_schedule = [], st_total_interest = 0, st_month = 11\<rparr>
     = Inr \<lparr>st_balance = 0,
            st_schedule = [\<lparr>month = 12, payment = 101, interest = 1, principal_paid = 100, balance = 0\<rparr>],
            st_total_interest = 1, st_month = 12\<rparr>"
    by (simp add: body_def Let_def r)
  have b2: "body (1 / 100) 200 \<lparr>st_balance = 1000, st_schedule = [], st_total_interest = 0, st_month = 0\<rparr>
     = Inr \<lparr>st_balance = 810,
            st_schedule = [\<lparr>month = 1, payment = 200, interest = 10, principal_paid = 190, balance = 810\<rparr>],
            st_total_interest = 10, st_month = 1\<rparr>"
    by (simp add: body_def Let_def r)
  show ?thesis
    using final_month_clamp [OF b1] final_month_clamp [OF b2] b1 b2 by (simp add: r)
qed

section \<open>Components of an entry\<close>

text \<open>
  C8: in every entry of the schedule of a successful call, the recorded interest plus
  the recorded principal differs from the recorded payment by at most one cent.
\<close>

theorem component_sum:
  assumes "calculate_loan payload = Inr res" and "e \<in> set (schedule res)"
  shows "\<bar>interest e + principal_paid e - payment e\<bar> \<le> 1 / 100"
proof -
  from assms(1) obtain base s where
    l: "loop (monthly_rate payload) (base + extra_payment payload) (term_months payload + 600)
       (initial_state (principal payload)) = Inr s"
    and res: "res = build_result (annual_rate payload) (base + extra_payment payload) s"
    by (rule calculate_loan_Inr)
  have "\<forall>e\<in>set (st_schedule s). components_within_cent e"
    by (rule loop_invariant [OF l]) (simp_all add: initial_state_def body_components_within_cent)
  with assms(2) res have "components_within_cent e" by (simp add: build_result_def)
  then show ?thesis by (simp only: components_within_cent_def)
qed

theorem component_sum_witness:
  "calculate_loan \<lparr>principal = 1200, annual_rate = 12, term_months = 1, extra_payment = 0\<rparr>
     = Inr \<lparr>monthly_payment = 1212, total_payment = 1212, total_interest = 12, payoff_months = 1,
            apr = 12,
            schedule = [\<lparr>month = 1, payment = 1212, interest = 12, principal_paid = 1200, balance = 0\<rparr>]\<rparr>
   \<and> \<bar>(12::real) + 1200 - 1212\<bar> \<le> 1 / 100"
  using component_sum [OF one_month_run,
      of "\<lparr>month = 1, payment = 1212, interest = 12, principal_paid = 1200, balance = 0\<rparr>"]
    one_month_run
  by simp

section \<open>Rounding, then summing\<close>

text \<open>
  C9: the total payment of a successful call is the rounding of the sum of the recorded,
  already rounded, payments of the schedule; and every monetary field of every entry is a
  value of two decimals, which a second rounding leaves as it is.
\<close>

theorem total_payment_rounded_sum:
  assumes "calculate_loan payload = Inr res"
  shows "total_payment res = round2 (sum_list (map payment (schedule res))) \<and>
         (\<forall>e\<in>set (schedule res).
            round2 (payment e) = payment e \<and> round2 (interest e) = interest e \<and>
            round2 (principal_paid e) = principal_paid e \<and> round2 (balance e) = balance e)"
proof -
  from assms obtain base s where
    l: "loop (monthly_rate payload) (base + extra_payment payload) (term_months payload + 600)
       (initial_state (principal payload)) = Inr s"
    and res: "res = build_result (annual_rate payload) (base + extra_payment payload) s"
    by (rule calculate_loan_Inr)
  let ?I = "\<lambda>s. \<forall>e\<in>set (st_schedule s).
            round2 (payment e) = payment e \<and> round2 (interest e) = interest e \<and>
            round2 (principal_paid e) = principal_paid e \<and> round2 (balance e) = balance e"
  have "?I s"
  proof (rule loop_invariant [OF l, where I = ?I])
    show "?I (initial_state (principal payload))" by (simp add: initial_state_def)
  next
    fix u v
    assume "?I u" and "body (monthly_rate payload) (base + extra_payment payload) u = Inr v"
    then show "?I v" by (simp add: body_Inr(4) round2_idem)
  qed
  then show ?thesis by (simp add: res build_result_def)
qed

theorem total_payment_rounded_sum_witness:
  "calculate_loan \<lparr>principal = 1200, annual_rate = 12, term_months = 1, extra_payment = 0\<rparr>
     = Inr \<lparr>monthly_payment = 1212, total_payment = 1212, total_interest = 12, payoff_months = 1,
            apr = 12,
            schedule = [\<lparr>month = 1, payment = 1212, interest = 12, principal_paid = 1200, balance = 0\<rparr>]\<rparr>
   \<and> (1212::real) = round2 (sum_list [1212])"
  using total_payment_rounded_sum [OF one_month_run] one_month_run by simp

section \<open>The non-amortization guard\<close>

text \<open>
  C1: \<open>calculate_loan\<close> fails with \<open>NonAmortizingPayment\<close> if and only if the input
  passes the validation and the loop enters some month in which the principal component
  is not positive while the monthly rate is positive. There is at most one such month
  in a run, so the failure is on the first one. The failure is a value that carries no
  schedule, and it never occurs when the monthly rate is zero.
\<close>

theorem non_amortizing_guard:
  "(calculate_loan payload = Inl NonAmortizingPayment \<longleftrightarrow>
      0 < principal payload \<and> 0 < term_months payload \<and> 0 \<le> annual_rate payload \<and>
      (\<exists>base k t.
         base_payment (principal payload) (monthly_rate payload) (term_months payload) = Inr base \<and>
         reach (monthly_rate payload) (base + extra_payment payload) (term_months payload + 600) k
           (initial_state (principal payload)) = Some t \<and>
         guard_fires (monthly_rate payload) (base + extra_payment payload)
           (term_months payload + 600) t))
   \<and> (\<forall>pay k t j u.
         reach (monthly_rate payload) pay (term_months payload + 600) k
           (initial_state (principal payload)) = Some t \<and>
         guard_fires (monthly_rate payload) pay (term_months payload + 600) t \<and>
         reach (monthly_rate payload) pay (term_months payload + 600) j
           (initial_state (principal payload)) = Some u \<and>
         guard_fires (monthly_rate payload) pay (term_months payload + 600) u
         \<longrightarrow> j = k)
   \<and> (monthly_rate payload = 0 \<longrightarrow> calculate_loan payload \<noteq> Inl NonAmortizingPayment)"
proof (intro conjI)
  show "calculate_loan payload = Inl NonAmortizingPayment \<longleftrightarrow>
      0 < principal payload \<and> 0 < term_months payload \<and> 0 \<le> annual_rate payload \<and>
      (\<exists>base k t.
         base_payment (principal payload) (monthly_rate payload) (term_months payload) = Inr base \<and>
         reach (monthly_rate payload) (base + extra_payment payload) (term_months payload + 600) k
           (initial_state (principal payload)) = Some t \<and>
         guard_fires (monthly_rate payload) (base + extra_payment payload)
           (term_months payload + 600) t)"
    unfolding calculate_loan_Inl_iff loop_Inl_iff by blast
next
  show "\<forall>pay k t j u.
         reach (monthly_rate payload) pay (term_months payload + 600) k
           (initial_state (principal payload)) = Some t \<and>
         guard_fires (monthly_rate payload) pay (term_months payload + 600) t \<and>
         reach (monthly_rate payload) pay (term_months payload + 600) j
           (initial_state (principal payload)) = Some u \<and>
         guard_fires (monthly_rate payload) pay (term_months payload + 600) u
         \<longrightarrow> j = k"
    using guard_fires_once by blast
next
  show "monthly_rate payload = 0 \<longrightarrow> calculate_loan payload \<noteq> Inl NonAmortizingPayment"
    unfolding calculate_loan_Inl_iff loop_Inl_iff by (auto simp: guard_fires_def)
qed

theorem non_amortizing_guard_witness:
  "calculate_loan \<lparr>principal = 1000, annual_rate = 12, term_months = 1, extra_payment = - 2000\<rparr>
     = Inl NonAmortizingPayment
   \<and> calculate_loan \<lparr>principal = 1200, annual_rate = 0, term_months = 1, extra_payment = 0\<rparr>
     \<noteq> Inl NonAmortizingPayment"
proof -
  let ?X = "\<lparr>principal = 1000, annual_rate = 12, term_months = 1, extra_payment = - 2000\<rparr>"
  let ?Y = "\<lparr>principal = 1200, annual_rate = 0, term_months = 1, extra_payment = 0\<rparr>"
  have b: "base_payment (principal ?X) (monthly_rate ?X) (term_months ?X) = Inr 1010"
    by (simp add: base_payment_def monthly_rate_def)
  have r: "reach (monthly_rate ?X) (1010 + extra_payment ?X) (term_months ?X + 600) 0
             (initial_state (principal ?X)) = Some (initial_state (principal ?X))"
    by simp
  have g: "guard_fires (monthly_rate ?X) (1010 + extra_payment ?X) (term_months ?X + 600)
             (initial_state (principal ?X))"
    by (simp add: guard_fires_def loop_condition_def initial_state_def monthly_rate_def)
  have "calculate_loan ?X = Inl NonAmortizingPayment"
    apply (rule non_amortizing_guard [of ?X, THEN conjunct1, THEN iffD2])
    apply (intro conjI exI)
         apply simp
        apply simp
       apply simp
      apply (rule b)
     apply (rule r)
    apply (rule g)
    done
  moreover have "calculate_loan ?Y \<noteq> Inl NonAmortizingPayment"
    using non_amortizing_guard [of ?Y, THEN conjunct2, THEN conjunct2]
    by (simp add: monthly_rate_def)
  ultimately show ?thesis by simp
qed

section \<open>Zero interest\<close>




section \<open>Depletion of the balance\<close>

text \<open>
  C3, as amended: for a valid input on which \<open>calculate_loan\<close> succeeds with a schedule
  that is not empty, no entry before the last records a balance that is zero or negative;
  the last entry records the balance 0.00 when the loop ends with a balance below 0.005,
  as it does after a clamped last payment, which leaves the balance at zero; and the last
  entry records a positive balance when the loop ends with the balance still above 0.005,
  cut by the safety cap or by the break of line 106.
\<close>

theorem balance_depletion:
  assumes "valid_input payload" and "calculate_loan payload = Inr res" and "schedule res \<noteq> []"
  shows "\<exists>base t.
           base_payment (principal payload) (monthly_rate payload) (term_months payload) = Inr base \<and>
           loop (monthly_rate payload) (base + extra_payment payload) (term_months payload + 600)
             (initial_state (principal payload)) = Inr t \<and>
           (st_balance t < 0.005 \<longrightarrow> balance (last (schedule res)) = 0) \<and>
           (0.005 < st_balance t \<longrightarrow> 0 < balance (last (schedule res))) \<and>
           (\<forall>i. Suc i < length (schedule res) \<longrightarrow> 0 < balance (schedule res ! i))"
proof -
  from assms(2) obtain base t where
    b: "base_payment (principal payload) (monthly_rate payload) (term_months payload) = Inr base"
    and l: "loop (monthly_rate payload) (base + extra_payment payload) (term_months payload + 600)
       (initial_state (principal payload)) = Inr t"
    and res: "res = build_result (annual_rate payload) (base + extra_payment payload) t"
    by (rule calculate_loan_Inr)
  have sched: "schedule res = st_schedule t" by (simp add: res build_result_def)
  have si: "schedule_inv (term_months payload + 600) t" by (rule loop_schedule_inv [OF l])
  with assms(3) sched have
    lst: "balance (last (schedule res)) = round2 (max (st_balance t) 0)"
    and prev: "\<forall>i. Suc i < length (schedule res) \<longrightarrow> 0 < balance (schedule res ! i)"
    by (simp_all add: schedule_inv_def)
  have small: "balance (last (schedule res)) = 0" if "st_balance t < 0.005"
  proof -
    have "0 \<le> max (st_balance t) 0" "max (st_balance t) 0 < 1 / 200" using that by simp_all
    then have "round2 (max (st_balance t) 0) = 0" by (rule round2_small)
    with lst show ?thesis by simp
  qed
  have large: "0 < balance (last (schedule res))" if "0.005 < st_balance t"
  proof -
    have "1 / 200 < max (st_balance t) 0" using that by simp
    then have "1 / 100 \<le> round2 (max (st_balance t) 0)" by (rule round2_pos)
    with lst show ?thesis by simp
  qed
  from b l small large prev show ?thesis by blast
qed

theorem balance_depletion_witness:
  "valid_input \<lparr>principal = 1200, annual_rate = 12, term_months = 2, extra_payment = 0\<rparr> \<and>
   calculate_loan \<lparr>principal = 1200, annual_rate = 12, term_months = 2, extra_payment = 0\<rparr>
     = Inr \<lparr>monthly_payment = 60901 / 100, total_payment = 121802 / 100, total_interest = 1803 / 100,
            payoff_months = 2, apr = 12,
            schedule = [\<lparr>month = 1, payment = 60901 / 100, interest = 12,
                         principal_paid = 59701 / 100, balance = 60299 / 100\<rparr>,
                        \<lparr>month = 2, payment = 60901 / 100, interest = 603 / 100,
                         principal_paid = 60299 / 100, balance = 0\<rparr>]\<rparr> \<and>
   (\<exists>t. loop (1 / 100) (40804 / 67) 602 (initial_state 1200) = Inr t \<and> st_balance t < 0.005) \<and>
   valid_input \<lparr>principal = 1000000, annual_rate = 0, term_months = 4000, extra_payment = 0\<rparr> \<and>
   (\<exists>t res. loop 0 250 4600 (initial_state 1000000) = Inr t \<and> 0.005 < st_balance t \<and>
      calculate_loan \<lparr>principal = 1000000, annual_rate = 0, term_months = 4000, extra_payment = 0\<rparr>
        = Inr res \<and>
      schedule res \<noteq> [] \<and> 0 < balance (last (schedule res)))"
proof -
  let ?X = "\<lparr>principal = 1200, annual_rate = 12, term_months = 2, extra_payment = 0\<rparr>"
  let ?Y = "\<lparr>principal = 1000000, annual_rate = 0, term_months = 4000, extra_payment = 0\<rparr>"
  have v: "valid_input ?X" and w: "valid_input ?Y" by (simp_all add: valid_input_def)
  have r: "round2 (40804 / 67) = 60901 / 100" "round2 (40000 / 67) = 59701 / 100"
    "round2 (40400 / 67) = 60299 / 100" "round2 (404 / 67) = 603 / 100"
    by (simp_all add: round2_def round_half_even_def Let_def)
  have lx: "\<exists>t. loop (1 / 100) (40804 / 67) 602 (initial_state 1200) = Inr t \<and> st_balance t < 0.005"
    by (simp add: initial_state_def loop.simps loop_condition_def body_def Let_def r)
  obtain t where t:
    "loop 0 250 4600 (initial_state 1000000) = Inr t"
    "calculate_loan ?Y = Inr (build_result 0 250 t)"
    "st_balance t = 99750" "length (st_schedule t) = 3601"
    by (rule hard_stop_run)
  from t(4) have ne: "schedule (build_result 0 250 t) \<noteq> []" by (auto simp: build_result_def)
  from balance_depletion [OF w t(2) ne] obtain base u where
    b: "base_payment (principal ?Y) (monthly_rate ?Y) (term_months ?Y) = Inr base"
    and u: "loop (monthly_rate ?Y) (base + extra_payment ?Y) (term_months ?Y + 600)
             (initial_state (principal ?Y)) = Inr u"
    and pos: "0.005 < st_balance u \<longrightarrow> 0 < balance (last (schedule (build_result 0 250 t)))"
    by auto
  from b have "base = 250" by (simp add: base_payment_def monthly_rate_def)
  with u t(1) have "u = t" by (simp add: monthly_rate_def)
  with pos t(3) have "0 < balance (last (schedule (build_result 0 250 t)))" by simp
  with t ne have ly: "\<exists>t res. loop 0 250 4600 (initial_state 1000000) = Inr t \<and> 0.005 < st_balance t \<and>
      calculate_loan ?Y = Inr res \<and> schedule res \<noteq> [] \<and> 0 < balance (last (schedule res))"
    by (intro exI [of _ t] exI [of _ "build_result 0 250 t"]) simp
  show ?thesis
    using balance_depletion [OF v two_month_run] v w two_month_run lx ly by simp
qed

text \<open>
  The claim as stated fails when the break of line 106 ends the loop: a loan of 1000000
  over 4000 months at rate zero succeeds with a last entry whose balance is 99750.
\<close>

theorem balance_depletion_counterexample:
  "\<exists>res. calculate_loan
            \<lparr>principal = 1000000, annual_rate = 0, term_months = 4000, extra_payment = 0\<rparr>
          = Inr res
        \<and> schedule res \<noteq> [] \<and> balance (last (schedule res)) = 99750"
proof -
  obtain t where t:
    "calculate_loan \<lparr>principal = 1000000, annual_rate = 0, term_months = 4000, extra_payment = 0\<rparr>
       = Inr (build_result 0 250 t)"
    "length (st_schedule t) = 3601"
    "balance (last (st_schedule t)) = 99750"
    by (rule hard_stop_run)
  from t(2) have "st_schedule t \<noteq> []" by auto
  with t show ?thesis by (simp add: build_result_def)
qed

section \<open>The bound on the number of passes\<close>

text \<open>
  C4: the claim bounds the passes of the loop, and the entries of the schedule, by 3600.
  The break of line 106 tests \<open>month > 3600\<close> after the entry of the month has been
  appended, so the loop makes 3601 passes on a loan of 1000000 over 4000 months at rate
  zero, and the schedule returned has 3601 entries.
\<close>

theorem hard_stop_after_3601:
  "\<exists>res. calculate_loan
            \<lparr>principal = 1000000, annual_rate = 0, term_months = 4000, extra_payment = 0\<rparr>
          = Inr res
        \<and> payoff_months res = 3601 \<and> length (schedule res) = 3601"
proof -
  obtain t where
    "calculate_loan \<lparr>principal = 1000000, annual_rate = 0, term_months = 4000, extra_payment = 0\<rparr>
       = Inr (build_result 0 250 t)"
    "length (st_schedule t) = 3601"
    by (rule hard_stop_run)
  then show ?thesis by (simp add: build_result_def)
qed

section \<open>Extra payments\<close>




end
